theory Spec2Isabelle
  imports Complex_Main
begin

section \<open>The LexML search client (\<^verbatim>\<open>search_acervo_api.py\<close>)\<close>

text \<open>
  A shallow embedding of the two classes of \<^verbatim>\<open>search_acervo_api.py\<close>:
  \<^verbatim>\<open>LexmlAcervo\<close>, the paginating client of the SRU endpoint, and \<^verbatim>\<open>XmlToJson\<close>, the
  record extractor. Python's integers are \<open>int\<close>, its strings are \<open>string\<close>, every
  \<^verbatim>\<open>raise\<close> is a value \<open>Inl e\<close>, every mutation of \<^verbatim>\<open>self\<close> is a new record, and every
  \<^verbatim>\<open>print\<close> is a \<open>notice\<close> collected in call order.
\<close>

subsection \<open>Exceptions and notices\<close>

datatype exn =
    RequestException      \<comment> \<open>\<^verbatim>\<open>requests.get\<close> got no response (any error but \<^verbatim>\<open>HTTPError\<close>)\<close>
  | UnicodeDecodeError    \<comment> \<open>\<^verbatim>\<open>response.content.decode("utf-8")\<close>\<close>
  | ParseError            \<comment> \<open>\<^verbatim>\<open>ET.fromstring\<close>\<close>
  | IndexError
  | TypeError
  | ValueError
  | KeyError string
  | RecursionError        \<comment> \<open>the interpreter's stack admits no further call\<close>

datatype notice =
    AllConsumed string        \<comment> \<open>line 58: the query string\<close>
  | RequestFailed nat         \<comment> \<open>line 76: the \<^verbatim>\<open>HTTPError\<close>, here its status code\<close>
  | Diagnostic "string option"  \<comment> \<open>lines 80 and 87: what \<^verbatim>\<open>parseError\<close> returned\<close>
  | NoResults string          \<comment> \<open>line 94: the escaped query string\<close>
  | AllQueried                \<comment> \<open>line 100\<close>
  | PaginationFinished        \<comment> \<open>line 101\<close>
  | Returning int int         \<comment> \<open>line 105: \<^verbatim>\<open>startRecord\<close> and the tracker\<close>
  | Remaining int string      \<comment> \<open>line 107: \<^verbatim>\<open>remain_objects\<close> and the URL\<close>

subsection \<open>Strings\<close>

text \<open>\<^verbatim>\<open>sub in s\<close> on Python strings: \<open>sub\<close> occurs in \<open>s\<close> as a contiguous run.\<close>

fun starts_with :: "string \<Rightarrow> string \<Rightarrow> bool" where
  "starts_with [] s = True"
| "starts_with (p # ps) [] = False"
| "starts_with (p # ps) (c # cs) = (p = c \<and> starts_with ps cs)"

fun py_in :: "string \<Rightarrow> string \<Rightarrow> bool" where
  "py_in sub [] = (sub = [])"
| "py_in sub (c # cs) = (starts_with sub (c # cs) \<or> py_in sub cs)"

text \<open>\<^verbatim>\<open>s.replace(" ", "%20")\<close>.\<close>

definition escape_spaces :: "string \<Rightarrow> string" where
  "escape_spaces s = concat (map (\<lambda>c. if c = CHR '' '' then ''%20'' else [c]) s)"

text \<open>\<^verbatim>\<open>str(n)\<close> on an integer: decimal digits, with a minus sign when negative.\<close>

definition digit_char :: "nat \<Rightarrow> char" where
  "digit_char d = char_of (48 + d)"

fun str_nat :: "nat \<Rightarrow> string" where
  "str_nat n = (if n < 10 then [digit_char n] else str_nat (n div 10) @ [digit_char (n mod 10)])"

definition str_int :: "int \<Rightarrow> string" where
  "str_int i = (if i < 0 then CHR ''-'' # str_nat (nat (- i)) else str_nat (nat i))"

text \<open>
  \<^verbatim>\<open>int(text)\<close> on a string, a character standing for the code point of its number
  (below 256): the blanks around the number are dropped, one sign is allowed, and the
  digits may be grouped by single underscores. Anything else is a \<^verbatim>\<open>ValueError\<close>. The
  blanks that \<^verbatim>\<open>int\<close> drops are the ASCII ones, tab to carriage return and the space,
  and, beyond ASCII, the code points that are white space, here U+0085 and U+00A0; the
  separators U+001C to U+001F are not among them. The only decimal digits below 256 are
  \<^verbatim>\<open>0\<close> to \<^verbatim>\<open>9\<close>. (The interpreter's limit on the number of digits is not modelled.)
\<close>

definition is_space :: "char \<Rightarrow> bool" where
  "is_space c =
     (let k = (of_char c :: nat) in (9 \<le> k \<and> k \<le> 13) \<or> k = 32 \<or> k = 133 \<or> k = 160)"

definition is_digit :: "char \<Rightarrow> bool" where
  "is_digit c = (let k = (of_char c :: nat) in 48 \<le> k \<and> k \<le> 57)"

definition strip :: "string \<Rightarrow> string" where
  "strip s = rev (dropWhile is_space (rev (dropWhile is_space s)))"

fun valid_digits :: "string \<Rightarrow> bool" where
  "valid_digits [] = False"
| "valid_digits [c] = is_digit c"
| "valid_digits (c # d # ds) =
     (is_digit c \<and> (if d = CHR ''_'' then valid_digits ds else valid_digits (d # ds)))"

definition digits_value :: "string \<Rightarrow> int" where
  "digits_value ds =
     foldl (\<lambda>acc c. acc * 10 + (of_char c - 48)) 0 (filter (\<lambda>c. c \<noteq> CHR ''_'') ds)"

definition py_int :: "string \<Rightarrow> exn + int" where
  "py_int s =
     (let t = strip s;
          (sign, ds) = (case t of
                          [] \<Rightarrow> (1, [])
                        | c # cs \<Rightarrow> if c = CHR ''-'' then (- 1, cs)
                                    else if c = CHR ''+'' then (1, cs) else (1, t))
      in if valid_digits ds then Inr (sign * digits_value ds) else Inl ValueError)"

subsection \<open>XML trees and HTTP responses\<close>

text \<open>
  An element as \<^verbatim>\<open>xml.etree.ElementTree\<close> shows it to this program: its tag, its text
  (\<^verbatim>\<open>None\<close> when absent) and its children in document order. The parser itself is
  outside the program: a response carries what decoding and parsing its content gives.
\<close>

datatype element = Element (el_tag: string) (el_text: "string option") (el_children: "element list")

datatype content = Undecodable | Malformed | Xml element

record response =
  status_code :: nat
  content :: content

datatype get_outcome = NoResponse | Got response

type_synonym transport = "string \<Rightarrow> get_outcome"

text \<open>\<^verbatim>\<open>r.raise_for_status()\<close> raises \<^verbatim>\<open>HTTPError\<close> for the 4xx and 5xx status codes.\<close>

definition raises_for_status :: "response \<Rightarrow> bool" where
  "raises_for_status r = (400 \<le> status_code r \<and> status_code r < 600)"

definition loadIntoXml :: "response \<Rightarrow> exn + element" where
  "loadIntoXml r =
     (case content r of
        Undecodable \<Rightarrow> Inl UnicodeDecodeError
      | Malformed \<Rightarrow> Inl ParseError
      | Xml tree \<Rightarrow> Inr tree)"

text \<open>
  \<^verbatim>\<open>tree.getiterator()\<close>, as Python provides it up to version 3.8: the list of all
  elements, in document order.
\<close>

fun getiterator :: "element \<Rightarrow> element list" where
  "getiterator (Element t x cs) = Element t x cs # concat (map getiterator cs)"

text \<open>\<^verbatim>\<open>f"{x}"\<close> on a text that may be \<^verbatim>\<open>None\<close>.\<close>

definition format_text :: "string option \<Rightarrow> string" where
  "format_text x = (case x of None \<Rightarrow> ''None'' | Some t \<Rightarrow> t)"

definition parseError :: "element \<Rightarrow> exn + string option" where
  "parseError tree =
     (if py_in ''diagnostics'' (el_tag tree) then
        (let it = getiterator tree in
         if 5 \<le> length it then
           Inr (Some (''Messagem de Erro: '' @ format_text (el_text (it ! 3)) @ '': ''
                      @ format_text (el_text (it ! 4))))
         else if 4 \<le> length it then
           Inr (Some (''Messagem de Erro: '' @ format_text (el_text (it ! 3))))
         else Inl IndexError)
      else Inr None)"

text \<open>\<^verbatim>\<open>int(list(tree.getroot())[1].text)\<close>: the total the response reports.\<close>

definition numeroObjetos :: "element \<Rightarrow> exn + int" where
  "numeroObjetos tree =
     (case el_children tree of
        c0 # c1 # cs \<Rightarrow> (case el_text c1 of None \<Rightarrow> Inl TypeError | Some t \<Rightarrow> py_int t)
      | _ \<Rightarrow> Inl IndexError)"

subsection \<open>The session and \<^verbatim>\<open>query\<close>\<close>

record session =
  containerOfXmlFiles :: "element list"
  query_string :: string
  overall_query_objects_tracker :: int
  total_objects_of_query :: "int option"
  completed_query :: bool

definition LexmlAcervo_BASE_URL :: string where
  "LexmlAcervo_BASE_URL = ''https://www.lexml.gov.br/busca/SRU?operation=searchRetrieve&version=1.1&query=''"

definition START_REC :: string where
  "START_REC = ''&startRecord=''"

definition MAXIMUM_REC :: string where
  "MAXIMUM_REC = ''&maximumRecords=''"

definition init :: "string \<Rightarrow> session" where
  "init q = \<lparr> containerOfXmlFiles = [], query_string = q,
             overall_query_objects_tracker = 0, total_objects_of_query = None,
             completed_query = False \<rparr>"

definition addToContainerOfXmlFiles :: "session \<Rightarrow> element \<Rightarrow> session" where
  "addToContainerOfXmlFiles s tree = s\<lparr> containerOfXmlFiles := containerOfXmlFiles s @ [tree] \<rparr>"

text \<open>Lines 61 to 71: the URL of the request.\<close>

definition request_url :: "session \<Rightarrow> int \<Rightarrow> int \<Rightarrow> string" where
  "request_url s startRecord maximumRecordsPerPage =
     concat [LexmlAcervo_BASE_URL, escape_spaces (query_string s), START_REC, str_int startRecord,
             MAXIMUM_REC, str_int maximumRecordsPerPage]"

text \<open>\<^verbatim>\<open>not self.__total_objects_of_query\<close>: true of \<^verbatim>\<open>None\<close> and of \<^verbatim>\<open>0\<close>.\<close>

definition falsy :: "int option \<Rightarrow> bool" where
  "falsy t = (case t of None \<Rightarrow> True | Some n \<Rightarrow> n = 0)"

type_synonym page = "element \<times> int \<times> int"

type_synonym query_result = "(exn + page option) \<times> session \<times> notice list"

text \<open>
  Lines 89 to 109, the path of a valid response: \<open>n\<close> is \<^verbatim>\<open>numeroObjetos\<close>, \<open>ns\<close> the
  notices printed so far.
\<close>

definition accept_page ::
  "session \<Rightarrow> int \<Rightarrow> int \<Rightarrow> element \<Rightarrow> int \<Rightarrow> notice list \<Rightarrow> query_result" where
  "accept_page s startRecord maximumRecordsPerPage tree n ns =
     (let s1 = (if falsy (total_objects_of_query s)
                then s\<lparr> total_objects_of_query := Some n \<rparr> else s);
          ns1 = ns @ (if n = 0 then [NoResults (escape_spaces (query_string s))] else []);
          s2 = addToContainerOfXmlFiles s1 tree;
          s3 = s2\<lparr> overall_query_objects_tracker :=
                     overall_query_objects_tracker s2 + maximumRecordsPerPage \<rparr>;
          remain_objects = n - overall_query_objects_tracker s3;
          (s4, ns2) = (if overall_query_objects_tracker s3 \<ge> n
                       then (s3\<lparr> completed_query := True \<rparr>,
                             ns1 @ [AllQueried, PaginationFinished])
                       else (s3, ns1));
          ns3 = ns2 @ (if \<not> completed_query s4
                       then [Returning startRecord (overall_query_objects_tracker s4),
                             Remaining remain_objects
                               (request_url s startRecord maximumRecordsPerPage)]
                       else []);
          start_record_next_query = overall_query_objects_tracker s4 + 1
      in (Inr (Some (tree, start_record_next_query, maximumRecordsPerPage)), s4, ns3))"

text \<open>
  Lines 78 to 81 and 85 to 88: a diagnostics document is printed and the call returns
  \<^verbatim>\<open>None\<close>; \<open>otherwise\<close> is what the call does with any other document.
\<close>

definition reject_diagnostics ::
  "session \<Rightarrow> element \<Rightarrow> notice list \<Rightarrow> query_result \<Rightarrow> query_result" where
  "reject_diagnostics s tree ns otherwise =
     (if py_in ''diagnostics'' (el_tag tree) then
        (case parseError tree of
           Inl e \<Rightarrow> (Inl e, s, ns)
         | Inr diagnosticoErro \<Rightarrow> (Inr None, s, ns @ [Diagnostic diagnosticoErro]))
      else otherwise)"

definition query :: "transport \<Rightarrow> session \<Rightarrow> int \<Rightarrow> int \<Rightarrow> query_result" where
  "query get s startRecord maximumRecordsPerPage =
     (let ns = (if completed_query s then [AllConsumed (query_string s)] else []);
          url = request_url s startRecord maximumRecordsPerPage
      in case get url of
           NoResponse \<Rightarrow> (Inl RequestException, s, ns)
         | Got r \<Rightarrow>
             if raises_for_status r then
               (let ns' = ns @ [RequestFailed (status_code r)] in
                case loadIntoXml r of
                  Inl e \<Rightarrow> (Inl e, s, ns')
                | Inr tree \<Rightarrow> reject_diagnostics s tree ns' (Inr None, s, ns'))
             else
               (case loadIntoXml r of
                  Inl e \<Rightarrow> (Inl e, s, ns)
                | Inr tree \<Rightarrow>
                    reject_diagnostics s tree ns
                      (case numeroObjetos tree of
                         Inl e \<Rightarrow> (Inl e, s, ns)
                       | Inr n \<Rightarrow> accept_page s startRecord maximumRecordsPerPage tree n ns)))"

subsection \<open>\<^verbatim>\<open>automatic_pagination\<close>\<close>

text \<open>
  The server may answer each request differently: \<open>w i\<close> answers the \<open>i\<close>-th request of
  a run. A run of \<^verbatim>\<open>automatic_pagination\<close> ends with an exception or a normal return,
  the session as the run left it and the number of the next request.

  The method is a \<^verbatim>\<open>while\<close> loop whose body calls \<^verbatim>\<open>query\<close>, unpacks the result into
  the loop's own variables (a \<^verbatim>\<open>TypeError\<close> when the result is \<^verbatim>\<open>None\<close>) and calls
  the method itself; when that call returns, the loop tests its condition again.

  Every page is fetched one call of the method deeper, and the interpreter bounds the
  depth of its stack (\<^verbatim>\<open>sys.getrecursionlimit()\<close>, 1000 unless changed). \<open>depth\<close> is the
  number of nested calls of the method that the stack still admits when the method is
  called: at depth 0 the call raises \<^verbatim>\<open>RecursionError\<close>. The frames that \<^verbatim>\<open>query\<close> needs
  below a call of the method are taken to fit.

  The loop goes round at the same depth, so the definition is a partial function with
  \<open>None\<close> for a run without end; \<open>automatic_pagination_total\<close> below shows that every
  call has a result.
\<close>

type_synonym world = "nat \<Rightarrow> transport"

type_synonym run = "(exn + unit) \<times> session \<times> nat"

partial_function (option) automatic_pagination ::
  "nat \<Rightarrow> world \<Rightarrow> nat \<Rightarrow> session \<Rightarrow> int \<Rightarrow> int \<Rightarrow> run option" where
  "automatic_pagination depth w i s startRecord maximumRecordsPerPage =
     (if depth = 0 then Some (Inl RecursionError, s, i)
      else if completed_query s then Some (Inr (), s, i)
      else (case query (w i) s startRecord maximumRecordsPerPage of
              (Inl e, s', ns) \<Rightarrow> Some (Inl e, s', Suc i)
            | (Inr None, s', ns) \<Rightarrow> Some (Inl TypeError, s', Suc i)
            | (Inr (Some (tree, startRecord', maximumRecordsPerPage')), s', ns) \<Rightarrow>
                Option.bind
                  (automatic_pagination (depth - 1) w (Suc i) s' startRecord'
                     maximumRecordsPerPage')
                  (\<lambda>(r, s'', i'').
                     case r of
                       Inl e \<Rightarrow> Some (Inl e, s'', i'')
                     | Inr u \<Rightarrow>
                         automatic_pagination depth w i'' s'' startRecord'
                           maximumRecordsPerPage')))"

declare automatic_pagination.simps [code]

subsection \<open>Runs of calls\<close>

text \<open>
  \<open>paginate_steps w n i s startRecord maximumRecordsPerPage\<close> is lines 121 to 123 done
  \<open>n\<close> times in a row: each call of \<^verbatim>\<open>query\<close> starts at the offset the call before
  returned, and the first call that raises or returns \<^verbatim>\<open>None\<close> ends the run.
\<close>

fun paginate_steps :: "world \<Rightarrow> nat \<Rightarrow> nat \<Rightarrow> session \<Rightarrow> int \<Rightarrow> int \<Rightarrow> run" where
  "paginate_steps w 0 i s startRecord maximumRecordsPerPage = (Inr (), s, i)"
| "paginate_steps w (Suc n) i s startRecord maximumRecordsPerPage =
     (case query (w i) s startRecord maximumRecordsPerPage of
        (Inl e, s', ns) \<Rightarrow> (Inl e, s', Suc i)
      | (Inr None, s', ns) \<Rightarrow> (Inl TypeError, s', Suc i)
      | (Inr (Some (tree, startRecord', maximumRecordsPerPage')), s', ns) \<Rightarrow>
          paginate_steps w n (Suc i) s' startRecord' maximumRecordsPerPage')"

definition run_session :: "run \<Rightarrow> session" where
  "run_session r = fst (snd r)"

text \<open>A run has stopped when it ended with an exception or the session is completed.\<close>

definition stopped :: "run \<Rightarrow> bool" where
  "stopped r = (isl (fst r) \<or> completed_query (run_session r))"

text \<open>
  A response is a valid page \<open>tree\<close> reporting \<open>n\<close> results when its status raises no
  \<^verbatim>\<open>HTTPError\<close>, its content parses to \<open>tree\<close>, the root is no diagnostics element and
  the second child of the root holds the integer \<open>n\<close>.
\<close>

definition valid_page :: "get_outcome \<Rightarrow> element \<Rightarrow> int \<Rightarrow> bool" where
  "valid_page out tree n =
     (case out of
        NoResponse \<Rightarrow> False
      | Got r \<Rightarrow> \<not> raises_for_status r \<and> loadIntoXml r = Inr tree
                 \<and> \<not> py_in ''diagnostics'' (el_tag tree) \<and> numeroObjetos tree = Inr n)"

subsection \<open>\<^verbatim>\<open>XmlToJson\<close>\<close>

text \<open>
  \<^verbatim>\<open>xmltodict\<close> hands \<^verbatim>\<open>__parseXml\<close> each item found at depth 5: a dictionary from the
  names of the item's children to their texts (\<^verbatim>\<open>None\<close> for an empty child), or, for an
  item without children, its own text. A child that has children or attributes of its
  own is outside the model. The record built is a dictionary in insertion order.
\<close>

datatype item = Dict "string \<rightharpoonup> string option" | Leaf "string option"

type_synonym data = "(string \<times> string option) list"

definition XmlToJson_BASE_URL :: string where
  "XmlToJson_BASE_URL = ''https://www.lexml.gov.br/urn/''"

text \<open>\<^verbatim>\<open>document[k]\<close>.\<close>

definition getitem :: "item \<Rightarrow> string \<Rightarrow> exn + string option" where
  "getitem document k =
     (case document of
        Leaf x \<Rightarrow> Inl TypeError
      | Dict d \<Rightarrow> (case d k of None \<Rightarrow> Inl (KeyError k) | Some v \<Rightarrow> Inr v))"

text \<open>Evaluating one more entry of the dictionary display: the first failure wins.\<close>

definition and_then :: "exn + 'a \<Rightarrow> ('a \<Rightarrow> exn + 'b) \<Rightarrow> exn + 'b" where
  "and_then x f = (case x of Inl e \<Rightarrow> Inl e | Inr v \<Rightarrow> f v)"

definition parseXml :: "item \<Rightarrow> exn + data" where
  "parseXml document =
     and_then (getitem document ''tipoDocumento'') (\<lambda>tipoDocumento.
     and_then (getitem document ''facet-tipoDocumento'') (\<lambda>facet_tipoDocumento.
     and_then (getitem document ''dc:date'') (\<lambda>date.
     and_then (getitem document ''urn'') (\<lambda>urn.
     and_then (getitem document ''urn'') (\<lambda>urn'.
     and_then (getitem document ''localidade'') (\<lambda>localidade.
     and_then (getitem document ''facet-localidade'') (\<lambda>facet_localidade.
     and_then (getitem document ''autoridade'') (\<lambda>autoridade.
     and_then (getitem document ''facet-autoridade'') (\<lambda>facet_autoridade.
     and_then (getitem document ''facet-tipoDocumento'') (\<lambda>facet_tipoDocumento'.
     and_then (getitem document ''dc:title'') (\<lambda>title.
     and_then (getitem document ''dc:description'') (\<lambda>description.
     and_then (getitem document ''dc:type'') (\<lambda>type.
     and_then (getitem document ''dc:identifier'') (\<lambda>identifier.
       Inr [(''tipoDocumento'', tipoDocumento),
            (''facet-tipoDocumento'', facet_tipoDocumento'),
            (''data'', date),
            (''urn'', urn),
            (''url'', Some (XmlToJson_BASE_URL @ format_text urn')),
            (''localidade'', localidade),
            (''facet-localidade'', facet_localidade),
            (''autoridade'', autoridade),
            (''facet-autoridade'', facet_autoridade),
            (''title'', title),
            (''description'', description),
            (''type'', type),
            (''identifier'', identifier)]))))))))))))))"

text \<open>
  \<^verbatim>\<open>parseToJson\<close>: the callback is run on the items in document order and appends each
  record to \<^verbatim>\<open>container_of_json\<close>; the first item that raises ends the run, with the
  container as it was then.
\<close>

fun parseToJson :: "item list \<Rightarrow> data list \<Rightarrow> (exn + data list) \<times> data list" where
  "parseToJson [] container_of_json = (Inr container_of_json, container_of_json)"
| "parseToJson (document # rest) container_of_json =
     (case parseXml document of
        Inl e \<Rightarrow> (Inl e, container_of_json)
      | Inr d \<Rightarrow> parseToJson rest (container_of_json @ [d]))"

subsection \<open>Example responses\<close>

definition results_page :: "string \<Rightarrow> element" where
  "results_page count =
     Element ''searchRetrieveResponse'' None
       [Element ''version'' (Some ''1.1'') [],
        Element ''numberOfRecords'' (Some count) [],
        Element ''records'' None []]"

definition diagnostics_page :: element where
  "diagnostics_page =
     Element ''diagnostics'' None
       [Element ''diagnostic'' None
          [Element ''uri'' (Some ''info:srw/diagnostic/1/10'') [],
           Element ''details'' (Some ''10'') [],
           Element ''message'' (Some ''Query syntax error'') []]]"

definition server :: "nat \<Rightarrow> content \<Rightarrow> transport" where
  "server status c = (\<lambda>url. Got \<lparr> status_code = status, content = c \<rparr>)"

definition error_page :: element where
  "error_page = Element ''html'' None [Element ''body'' (Some ''Service Unavailable'') []]"

definition consumed_session :: session where
  "consumed_session =
     \<lparr> containerOfXmlFiles = [results_page ''25'', results_page ''25'', results_page ''25''],
       query_string = ''date=2019'', overall_query_objects_tracker = 30,
       total_objects_of_query = Some 25, completed_query = True \<rparr>"

subsection \<open>An example item\<close>

definition example_item :: item where
  "example_item = Dict
     [''tipoDocumento'' \<mapsto> Some ''Lei'',
      ''facet-tipoDocumento'' \<mapsto> Some ''Legislacao::Lei'',
      ''dc:date'' \<mapsto> Some ''2019-01-01'',
      ''urn'' \<mapsto> Some ''urn:lex:br:federal:lei:2019'',
      ''localidade'' \<mapsto> Some ''Brasil'',
      ''facet-localidade'' \<mapsto> Some ''Brasil'',
      ''autoridade'' \<mapsto> Some ''Federal'',
      ''facet-autoridade'' \<mapsto> Some ''Federal'',
      ''dc:title'' \<mapsto> Some ''Lei de 2019'',
      ''dc:description'' \<mapsto> None,
      ''dc:type'' \<mapsto> Some ''html'',
      ''dc:identifier'' \<mapsto> Some ''000001'']"

subsection \<open>Example servers\<close>

definition stable_world :: "string \<Rightarrow> world" where
  "stable_world count = (\<lambda>k. server 200 (Xml (results_page count)))"



section \<open>What one call of \<^verbatim>\<open>query\<close> does\<close>

lemma accept_page_result:
  "fst (accept_page s st P tree n ns) =
     Inr (Some (tree, overall_query_objects_tracker s + P + 1, P))"
  by (simp add: accept_page_def Let_def addToContainerOfXmlFiles_def split: prod.splits)

lemma accept_page_session:
  "fst (snd (accept_page s st P tree n ns)) =
     s\<lparr> containerOfXmlFiles := containerOfXmlFiles s @ [tree],
        overall_query_objects_tracker := overall_query_objects_tracker s + P,
        total_objects_of_query := (if falsy (total_objects_of_query s) then Some n
                                   else total_objects_of_query s),
        completed_query := (completed_query s \<or> n \<le> overall_query_objects_tracker s + P) \<rparr>"
  by (simp add: accept_page_def Let_def addToContainerOfXmlFiles_def split: prod.splits)

lemma query_valid:
  assumes "valid_page (get (request_url s st P)) tree n"
  shows "query get s st P =
           accept_page s st P tree n
             (if completed_query s then [AllConsumed (query_string s)] else [])"
  using assms
  by (auto simp: query_def valid_page_def reject_diagnostics_def Let_def
           split: get_outcome.splits)

lemma query_page_valid:
  assumes "query get s st P = (Inr (Some page), s', ns)"
  shows "\<exists>tree n. valid_page (get (request_url s st P)) tree n"
  using assms
  by (auto simp: query_def valid_page_def reject_diagnostics_def Let_def
           split: get_outcome.splits if_splits sum.splits)

lemma valid_page_25:
  "valid_page (server 200 (Xml (results_page ''25'')) url) (results_page ''25'') 25"
  by (simp add: valid_page_def server_def raises_for_status_def loadIntoXml_def
      results_page_def numeroObjetos_def py_int_def strip_def is_space_def is_digit_def
      digits_value_def Let_def)

lemma valid_page_0:
  "valid_page (server 200 (Xml (results_page ''0'')) url) (results_page ''0'') 0"
  by (simp add: valid_page_def server_def raises_for_status_def loadIntoXml_def
      results_page_def numeroObjetos_def py_int_def strip_def is_space_def is_digit_def
      digits_value_def Let_def)

section \<open>The cursor after a page\<close>

text \<open>
  Claim C5. Whenever \<^verbatim>\<open>query\<close> returns a page (the response was a valid page, no
  diagnostics document), the tracker \<^verbatim>\<open>__overall_query_objects_tracker\<close> has grown by
  exactly the page size asked for, whatever the page holds, the parsed tree has been
  appended to the container, and the value returned is the tree, the new tracker plus
  one as the next start record, and the page size.
\<close>

theorem query_page_advances_cursor:
  assumes "query get s startRecord maximumRecordsPerPage = (Inr (Some page), s', ns)"
  shows "overall_query_objects_tracker s' =
           overall_query_objects_tracker s + maximumRecordsPerPage
         \<and> (\<exists>tree n. valid_page (get (request_url s startRecord maximumRecordsPerPage)) tree n
              \<and> page = (tree, overall_query_objects_tracker s' + 1, maximumRecordsPerPage)
              \<and> containerOfXmlFiles s' = containerOfXmlFiles s @ [tree])"
proof -
  obtain tree n
    where v: "valid_page (get (request_url s startRecord maximumRecordsPerPage)) tree n"
    using query_page_valid [OF assms] by blast
  have "fst (query get s startRecord maximumRecordsPerPage) = Inr (Some page)"
    and "fst (snd (query get s startRecord maximumRecordsPerPage)) = s'"
    by (simp_all add: assms)
  then have "page = (tree, overall_query_objects_tracker s + maximumRecordsPerPage + 1,
                     maximumRecordsPerPage)"
    and "s' = s\<lparr> containerOfXmlFiles := containerOfXmlFiles s @ [tree],
        overall_query_objects_tracker :=
          overall_query_objects_tracker s + maximumRecordsPerPage,
        total_objects_of_query := (if falsy (total_objects_of_query s) then Some n
                                   else total_objects_of_query s),
        completed_query :=
          (completed_query s \<or> n \<le> overall_query_objects_tracker s + maximumRecordsPerPage) \<rparr>"
    using query_valid [of get s startRecord maximumRecordsPerPage tree n, OF v]
    by (simp_all add: accept_page_result accept_page_session)
  with v show ?thesis by auto
qed

theorem query_page_advances_cursor_witness:
  "\<exists>s' ns. query (server 200 (Xml (results_page ''25''))) (init ''date=2019'') 1 10
             = (Inr (Some (results_page ''25'', 11, 10)), s', ns)
           \<and> overall_query_objects_tracker s' = 10
           \<and> containerOfXmlFiles s' = [results_page ''25'']"
proof -
  let ?q = "query (server 200 (Xml (results_page ''25''))) (init ''date=2019'') 1 10"
  have "fst ?q = Inr (Some (results_page ''25'', 11, 10))"
    using query_valid [of "server 200 (Xml (results_page ''25''))" "init ''date=2019''" 1 10,
        OF valid_page_25]
    by (simp add: accept_page_result init_def)
  then obtain s' ns where q: "?q = (Inr (Some (results_page ''25'', 11, 10)), s', ns)"
    by (cases ?q) auto
  from query_page_advances_cursor [OF q] show ?thesis
    using q by (auto simp: init_def)
qed

section \<open>Diagnostics documents\<close>

text \<open>\<open>py_in\<close> is the substring test.\<close>

lemma starts_with_iff: "starts_with sub s \<longleftrightarrow> (\<exists>ss. s = sub @ ss)"
  by (induction sub s rule: starts_with.induct) auto

lemma py_in_iff: "py_in sub s \<longleftrightarrow> (\<exists>ps ss. s = ps @ sub @ ss)"
proof (induction s)
  case Nil
  then show ?case by auto
next
  case (Cons c cs)
  show ?case
  proof
    assume "py_in sub (c # cs)"
    then consider "starts_with sub (c # cs)" | "py_in sub cs" by auto
    then show "\<exists>ps ss. c # cs = ps @ sub @ ss"
    proof cases
      case 1
      then obtain ss where "c # cs = sub @ ss" by (auto simp: starts_with_iff)
      then have "c # cs = [] @ sub @ ss" by simp
      then show ?thesis by blast
    next
      case 2
      then obtain ps ss where "cs = ps @ sub @ ss" using Cons.IH by blast
      then have "c # cs = (c # ps) @ sub @ ss" by simp
      then show ?thesis by blast
    qed
  next
    assume "\<exists>ps ss. c # cs = ps @ sub @ ss"
    then obtain ps ss where e: "c # cs = ps @ sub @ ss" by blast
    show "py_in sub (c # cs)"
    proof (cases ps)
      case Nil
      with e have "starts_with sub (c # cs)" by (auto simp: starts_with_iff)
      then show ?thesis by simp
    next
      case (Cons p ps')
      with e have "cs = ps' @ sub @ ss" by simp
      then have "py_in sub cs" using Cons.IH by blast
      then show ?thesis by simp
    qed
  qed
qed

lemma py_int_literals:
  "py_int ''0'' = Inr 0" "py_int ''5'' = Inr 5" "py_int ''25'' = Inr 25"
  by (simp_all add: py_int_def strip_def is_space_def is_digit_def digits_value_def Let_def)

lemma valid_page_results:
  assumes "py_int t = Inr n"
  shows "valid_page (server 200 (Xml (results_page t)) url) (results_page t) n"
  using assms
  by (simp add: valid_page_def server_def raises_for_status_def loadIntoXml_def
      results_page_def numeroObjetos_def)

lemma query_diagnostics:
  assumes "get (request_url s st P) = Got r" and "loadIntoXml r = Inr tree"
    and "py_in ''diagnostics'' (el_tag tree)"
  shows "fst (query get s st P) =
           (if 4 \<le> length (getiterator tree) then Inr None else Inl IndexError)"
    and "fst (snd (query get s st P)) = s"
  using assms
  by (auto simp: query_def reject_diagnostics_def parseError_def Let_def)

text \<open>
  Claim C2. When the response, whatever its status, parses to a document whose root tag
  contains \<^verbatim>\<open>diagnostics\<close>, \<^verbatim>\<open>query\<close> never returns a page: it returns \<^verbatim>\<open>None\<close>, or, when
  the document has fewer than four elements, \<^verbatim>\<open>parseError\<close> raises \<^verbatim>\<open>IndexError\<close>. In
  both cases the session is the one before the call: no page is appended, and the
  tracker, the total and the completion flag keep their values.
\<close>

theorem diagnostics_never_a_page:
  assumes "get (request_url s startRecord maximumRecordsPerPage) = Got r"
    and "loadIntoXml r = Inr tree"
    and "py_in ''diagnostics'' (el_tag tree)"
  shows "fst (query get s startRecord maximumRecordsPerPage) =
           (if 4 \<le> length (getiterator tree) then Inr None else Inl IndexError)
         \<and> fst (snd (query get s startRecord maximumRecordsPerPage)) = s"
  using query_diagnostics [of get s startRecord maximumRecordsPerPage r tree, OF assms] by simp

theorem diagnostics_never_a_page_witness:
  "py_in ''diagnostics'' (el_tag diagnostics_page)
   \<and> fst (query (server 400 (Xml diagnostics_page)) (init ''date=2019'') 1 10) = Inr None
   \<and> fst (snd (query (server 400 (Xml diagnostics_page)) (init ''date=2019'') 1 10))
       = init ''date=2019''"
proof -
  have g: "server 400 (Xml diagnostics_page) (request_url (init ''date=2019'') 1 10)
           = Got \<lparr> status_code = 400, content = Xml diagnostics_page \<rparr>"
    by (simp add: server_def)
  have l: "loadIntoXml \<lparr> status_code = 400, content = Xml diagnostics_page \<rparr>
           = Inr diagnostics_page"
    by (simp add: loadIntoXml_def)
  have d: "py_in ''diagnostics'' (el_tag diagnostics_page)"
    by (simp add: diagnostics_page_def)
  have n: "4 \<le> length (getiterator diagnostics_page)"
    by (simp add: diagnostics_page_def)
  from diagnostics_never_a_page [of "server 400 (Xml diagnostics_page)" "init ''date=2019''"
      1 10 _ diagnostics_page, OF g l d] n d
  show ?thesis by simp
qed

section \<open>Failed requests\<close>

lemma query_invalid:
  assumes "\<not> (\<exists>tree n. valid_page (get (request_url s st P)) tree n)"
  shows "fst (snd (query get s st P)) = s"
    and "fst (query get s st P) \<noteq> Inr (Some page)"
  using assms
  by (auto simp: query_def valid_page_def reject_diagnostics_def Let_def
           split: get_outcome.splits if_splits sum.splits)

lemma query_http_error:
  assumes "get (request_url s st P) = Got r" and "raises_for_status r"
    and "loadIntoXml r = Inr tree" and "\<not> py_in ''diagnostics'' (el_tag tree)"
  shows "query get s st P =
           (Inr None, s,
            (if completed_query s then [AllConsumed (query_string s)] else [])
            @ [RequestFailed (status_code r)])"
  using assms by (simp add: query_def reject_diagnostics_def Let_def)

section \<open>A query without results\<close>

text \<open>
  Claim C7. When the first response of a session reports zero results, the first call of
  \<^verbatim>\<open>query\<close>, with a page size that is not negative, returns the page, sets
  \<^verbatim>\<open>__completed_query\<close> and appends the page to the container, which then holds exactly
  that one tree; the total learnt is zero.
\<close>

theorem zero_results_completes:
  assumes "valid_page (get (request_url (init q) startRecord maximumRecordsPerPage)) tree 0"
    and "0 \<le> maximumRecordsPerPage"
  shows "fst (query get (init q) startRecord maximumRecordsPerPage)
           = Inr (Some (tree, maximumRecordsPerPage + 1, maximumRecordsPerPage))
         \<and> completed_query (fst (snd (query get (init q) startRecord maximumRecordsPerPage)))
         \<and> containerOfXmlFiles (fst (snd (query get (init q) startRecord maximumRecordsPerPage)))
             = [tree]
         \<and> length (containerOfXmlFiles
              (fst (snd (query get (init q) startRecord maximumRecordsPerPage)))) = 1
         \<and> total_objects_of_query
              (fst (snd (query get (init q) startRecord maximumRecordsPerPage))) = Some 0"
  using query_valid [of get "init q" startRecord maximumRecordsPerPage tree 0, OF assms(1)]
    assms(2)
  by (simp add: accept_page_result accept_page_session init_def falsy_def)

theorem zero_results_completes_witness:
  "completed_query
     (fst (snd (query (server 200 (Xml (results_page ''0''))) (init ''date=1500'') 1 10)))
   \<and> containerOfXmlFiles
       (fst (snd (query (server 200 (Xml (results_page ''0''))) (init ''date=1500'') 1 10)))
     = [results_page ''0'']"
  using zero_results_completes [of "server 200 (Xml (results_page ''0''))" "''date=1500''"
      1 10 "results_page ''0''", OF valid_page_0]
  by simp

section \<open>Calls after completion\<close>

text \<open>
  Claim C8. A call of \<^verbatim>\<open>query\<close> on a completed session, with a page size that is not
  negative, is not rejected: its first notice says that all objects were consumed, and
  then it does what the call does on a session not completed, returning the same value
  and leaving the same container, tracker and total. The completion flag stays set and
  the tracker does not decrease, so a tracker that was not negative stays so.
\<close>

theorem query_after_completed:
  assumes "completed_query s" and "0 \<le> maximumRecordsPerPage"
    and "query get s startRecord maximumRecordsPerPage = (r, s', ns)"
  shows "completed_query s'
         \<and> overall_query_objects_tracker s \<le> overall_query_objects_tracker s'
         \<and> hd ns = AllConsumed (query_string s)
         \<and> r = fst (query get (s\<lparr> completed_query := False \<rparr>) startRecord maximumRecordsPerPage)
         \<and> s'\<lparr> completed_query := False \<rparr> =
             (fst (snd (query get (s\<lparr> completed_query := False \<rparr>) startRecord
                maximumRecordsPerPage)))\<lparr> completed_query := False \<rparr>"
proof (cases "\<exists>tree n. valid_page (get (request_url s startRecord maximumRecordsPerPage)) tree n")
  case True
  then obtain tree n
    where v: "valid_page (get (request_url s startRecord maximumRecordsPerPage)) tree n"
    by blast
  have u: "request_url (s\<lparr> completed_query := False \<rparr>) startRecord maximumRecordsPerPage
           = request_url s startRecord maximumRecordsPerPage"
    by (simp add: request_url_def)
  have q: "query get s startRecord maximumRecordsPerPage =
             accept_page s startRecord maximumRecordsPerPage tree n [AllConsumed (query_string s)]"
    using query_valid [of get s startRecord maximumRecordsPerPage tree n, OF v] assms(1)
    by simp
  have q': "query get (s\<lparr> completed_query := False \<rparr>) startRecord maximumRecordsPerPage =
             accept_page (s\<lparr> completed_query := False \<rparr>) startRecord maximumRecordsPerPage tree n []"
    using query_valid [of get "s\<lparr> completed_query := False \<rparr>" startRecord
        maximumRecordsPerPage tree n] v u
    by simp
  have r: "r = fst (accept_page s startRecord maximumRecordsPerPage tree n [AllConsumed (query_string s)])"
    and s': "s' = fst (snd (accept_page s startRecord maximumRecordsPerPage tree n [AllConsumed (query_string s)]))"
    and ns: "ns = snd (snd (accept_page s startRecord maximumRecordsPerPage tree n [AllConsumed (query_string s)]))"
    using assms(3) q by simp_all
  have "hd ns = AllConsumed (query_string s)"
    unfolding ns by (simp add: accept_page_def Let_def split: prod.splits)
  then show ?thesis
    using assms(1,2)
    unfolding r s' q' by (simp add: accept_page_result accept_page_session)
next
  case False
  then have F: "\<not> (\<exists>tree n. valid_page (get (request_url (s\<lparr> completed_query := False \<rparr>) startRecord maximumRecordsPerPage)) tree n)"
    by (simp add: request_url_def)
  have "s' = s"
    using query_invalid(1) [of get s startRecord maximumRecordsPerPage, OF False] assms(3) by simp
  moreover have "hd ns = AllConsumed (query_string s)"
    using assms(1,3) False
    by (auto simp: query_def reject_diagnostics_def Let_def valid_page_def
           split: get_outcome.splits if_splits sum.splits)
  moreover have "r = fst (query get (s\<lparr> completed_query := False \<rparr>) startRecord maximumRecordsPerPage)"
    using assms(1,3) False
    by (auto simp: query_def reject_diagnostics_def Let_def request_url_def valid_page_def
           split: get_outcome.splits if_splits sum.splits)
  ultimately show ?thesis
    using assms(1) query_invalid(1) [of get "s\<lparr> completed_query := False \<rparr>" startRecord
        maximumRecordsPerPage, OF F]
    by simp
qed

theorem query_after_completed_witness:
  "completed_query consumed_session
   \<and> fst (query (server 200 (Xml (results_page ''25''))) consumed_session 31 10)
       = Inr (Some (results_page ''25'', 41, 10))
   \<and> completed_query
       (fst (snd (query (server 200 (Xml (results_page ''25''))) consumed_session 31 10)))
   \<and> overall_query_objects_tracker
       (fst (snd (query (server 200 (Xml (results_page ''25''))) consumed_session 31 10))) = 40"
proof -
  let ?q = "query (server 200 (Xml (results_page ''25''))) consumed_session 31 10"
  have c: "completed_query consumed_session" by (simp add: consumed_session_def)
  have p: "(0::int) \<le> 10" by simp
  have t: "?q = (fst ?q, fst (snd ?q), snd (snd ?q))" by simp
  have e: "?q = accept_page consumed_session 31 10 (results_page ''25'') 25
                  [AllConsumed (query_string consumed_session)]"
    using query_valid [of "server 200 (Xml (results_page ''25''))" consumed_session 31 10,
        OF valid_page_25] c by simp
  have "fst ?q = Inr (Some (results_page ''25'', 41, 10))"
    and "overall_query_objects_tracker (fst (snd ?q)) = 40"
    unfolding e by (simp_all add: accept_page_result accept_page_session consumed_session_def)
  with query_after_completed [OF c p t] c show ?thesis by simp
qed

section \<open>The total of the session\<close>

text \<open>
  The guard of line 91 keeps a total once it is not zero.
\<close>

lemma total_kept_when_nonzero:
  assumes "total_objects_of_query s = Some t" and "t \<noteq> 0"
  shows "total_objects_of_query (fst (snd (query get s st P))) = Some t"
proof (cases "\<exists>tree n. valid_page (get (request_url s st P)) tree n")
  case True
  then obtain tree n where v: "valid_page (get (request_url s st P)) tree n" by blast
  show ?thesis
    using query_valid [of get s st P tree n, OF v] assms
    by (simp add: accept_page_session falsy_def)
next
  case False
  then show ?thesis
    using query_invalid(1) [of get s st P] assms by simp
qed

text \<open>
  Claim C3. The total \<^verbatim>\<open>__total_objects_of_query\<close>, once set, should never change. The
  guard of line 91 tests the truth value of the total, and zero is as false as
  \<^verbatim>\<open>None\<close>: after a first response that reports zero results the total is zero, and a
  later response that reports five results replaces it by five.
\<close>

theorem total_overwritten_after_zero:
  "total_objects_of_query
     (fst (snd (query (server 200 (Xml (results_page ''0''))) (init ''date=2019'') 1 10)))
     = Some 0
   \<and> total_objects_of_query
       (fst (snd (query (server 200 (Xml (results_page ''5'')))
          (fst (snd (query (server 200 (Xml (results_page ''0''))) (init ''date=2019'') 1 10)))
          11 10)))
     = Some 5"
proof -
  let ?s1 = "fst (snd (query (server 200 (Xml (results_page ''0''))) (init ''date=2019'') 1 10))"
  have s1: "?s1 = \<lparr> containerOfXmlFiles = [results_page ''0''],
       query_string = ''date=2019'', overall_query_objects_tracker = 10,
       total_objects_of_query = Some 0, completed_query = True \<rparr>"
    using query_valid [of "server 200 (Xml (results_page ''0''))" "init ''date=2019''" 1 10,
        OF valid_page_0]
    by (simp add: accept_page_session init_def falsy_def)
  have v5: "valid_page (server 200 (Xml (results_page ''5'')) (request_url ?s1 11 10))
              (results_page ''5'') 5"
    by (rule valid_page_results) (rule py_int_literals)
  have "total_objects_of_query (fst (snd (query (server 200 (Xml (results_page ''5''))) ?s1 11 10)))
          = Some 5"
    using query_valid [of "server 200 (Xml (results_page ''5''))" ?s1 11 10, OF v5]
    by (simp add: accept_page_session s1 falsy_def)
  then show ?thesis by (simp add: s1)
qed

section \<open>How failures reach the caller\<close>

text \<open>
  Claim C4, as stated, does not hold: a response with an error status whose body is not a
  diagnostics document and a response with a diagnostics document both make \<^verbatim>\<open>query\<close>
  return \<^verbatim>\<open>None\<close> with the session unchanged.
\<close>

theorem http_error_outcomes_coincide:
  "fst (query (server 503 (Xml error_page)) (init ''date=2019'') 1 10) = Inr None
   \<and> fst (query (server 400 (Xml diagnostics_page)) (init ''date=2019'') 1 10) = Inr None
   \<and> fst (snd (query (server 503 (Xml error_page)) (init ''date=2019'') 1 10))
       = fst (snd (query (server 400 (Xml diagnostics_page)) (init ''date=2019'') 1 10))"
  by (simp add: query_def server_def raises_for_status_def loadIntoXml_def
      reject_diagnostics_def parseError_def error_page_def diagnostics_page_def Let_def)

text \<open>
  Claim C4, amended. No request that fails is turned into a page: when the response is
  not a valid page, \<^verbatim>\<open>query\<close> returns \<^verbatim>\<open>None\<close> or raises, and the session is unchanged.
  In particular a response with a 4xx or 5xx status whose body parses and is not a
  diagnostics document returns \<^verbatim>\<open>None\<close>, the value a diagnostics body also returns,
  after the notice of the failed request; only the notices tell the two apart.
\<close>

theorem failures_return_no_page:
  assumes "\<not> (\<exists>tree n. valid_page (get (request_url s startRecord maximumRecordsPerPage)) tree n)"
  shows "fst (snd (query get s startRecord maximumRecordsPerPage)) = s
         \<and> (\<forall>page. fst (query get s startRecord maximumRecordsPerPage) \<noteq> Inr (Some page))
         \<and> (\<forall>r tree. get (request_url s startRecord maximumRecordsPerPage) = Got r
               \<and> raises_for_status r \<and> loadIntoXml r = Inr tree
               \<and> \<not> py_in ''diagnostics'' (el_tag tree)
             \<longrightarrow> query get s startRecord maximumRecordsPerPage =
                   (Inr None, s,
                    (if completed_query s then [AllConsumed (query_string s)] else [])
                    @ [RequestFailed (status_code r)]))"
  using query_invalid [of get s startRecord maximumRecordsPerPage, OF assms]
    query_http_error [of get s startRecord maximumRecordsPerPage]
  by blast

theorem failures_return_no_page_witness:
  "query (server 503 (Xml error_page)) (init ''date=2019'') 1 10
     = (Inr None, init ''date=2019'', [RequestFailed 503])"
proof -
  have n: "\<not> (\<exists>tree n. valid_page
             (server 503 (Xml error_page) (request_url (init ''date=2019'') 1 10)) tree n)"
    by (simp add: valid_page_def server_def raises_for_status_def)
  have "server 503 (Xml error_page) (request_url (init ''date=2019'') 1 10)
          = Got \<lparr> status_code = 503, content = Xml error_page \<rparr>
        \<and> raises_for_status \<lparr> status_code = 503, content = Xml error_page \<rparr>
        \<and> loadIntoXml \<lparr> status_code = 503, content = Xml error_page \<rparr> = Inr error_page
        \<and> \<not> py_in ''diagnostics'' (el_tag error_page)"
    by (simp add: server_def raises_for_status_def loadIntoXml_def error_page_def)
  with failures_return_no_page [of "server 503 (Xml error_page)" "init ''date=2019''" 1 10,
      OF n]
  show ?thesis by (auto simp: init_def)
qed

section \<open>The records of \<^verbatim>\<open>XmlToJson\<close>\<close>

lemma and_then_Inr:
  "and_then x f = Inr y \<longleftrightarrow> (\<exists>v. x = Inr v \<and> f v = Inr y)"
  by (cases x) (simp_all add: and_then_def)

lemma parseXml_url:
  assumes "parseXml document = Inr d"
  shows "\<exists>urn. getitem document ''urn'' = Inr urn \<and> map_of d ''urn'' = Some urn
           \<and> map_of d ''url'' = Some (Some (XmlToJson_BASE_URL @ format_text urn))"
  using assms unfolding parseXml_def and_then_Inr by auto

lemma parseToJson_records:
  assumes "parseToJson items c = (Inr out, c')"
  shows "length out = length c + length items
         \<and> (\<forall>i<length items. \<exists>urn. getitem (items ! i) ''urn'' = Inr urn
               \<and> map_of (out ! (length c + i)) ''urn'' = Some urn
               \<and> map_of (out ! (length c + i)) ''url''
                   = Some (Some (XmlToJson_BASE_URL @ format_text urn)))
         \<and> take (length c) out = c"
  using assms
proof (induction items arbitrary: c)
  case Nil
  then show ?case by simp
next
  case (Cons document rest)
  from Cons.prems obtain d where d: "parseXml document = Inr d"
    and r: "parseToJson rest (c @ [d]) = (Inr out, c')"
    by (auto split: sum.splits)
  from Cons.IH [OF r] have len: "length out = length c + 1 + length rest"
    and rest: "\<forall>i<length rest. \<exists>urn. getitem (rest ! i) ''urn'' = Inr urn
               \<and> map_of (out ! (length c + 1 + i)) ''urn'' = Some urn
               \<and> map_of (out ! (length c + 1 + i)) ''url''
                   = Some (Some (XmlToJson_BASE_URL @ format_text urn))"
    and tk: "take (length c + 1) out = c @ [d]"
    by simp_all
  have "out ! length c = d"
    using arg_cong [OF tk, of "\<lambda>xs. xs ! length c"] by simp
  moreover have "take (length c) out = c"
    using arg_cong [OF tk, of "take (length c)"] by (simp add: min_def)
  ultimately show ?case
    using len rest parseXml_url [OF d]
    by (auto simp: nth_Cons less_Suc_eq_0_disj)
qed

text \<open>
  Claim C9. When \<^verbatim>\<open>parseToJson\<close> returns, every item it processed has a \<^verbatim>\<open>urn\<close> field, and
  the record built from the item holds that field under \<^verbatim>\<open>urn\<close> and, under \<^verbatim>\<open>url\<close>, the fixed
  base \<^verbatim>\<open>https://www.lexml.gov.br/urn/\<close> followed by it (formatted as an f-string formats
  it: a text as it is). The item with the URN \<^verbatim>\<open>urn:lex:br:federal:lei:2019\<close> is the
  witness.
\<close>

theorem extracted_url:
  assumes "parseToJson items container_of_json = (Inr out, c')" and "i < length items"
  shows "\<exists>urn. getitem (items ! i) ''urn'' = Inr urn
           \<and> map_of (out ! (length container_of_json + i)) ''urn'' = Some urn
           \<and> map_of (out ! (length container_of_json + i)) ''url''
               = Some (Some (''https://www.lexml.gov.br/urn/'' @ format_text urn))"
  using parseToJson_records [OF assms(1)] assms(2)
  by (simp add: XmlToJson_BASE_URL_def)

lemma parseXml_example:
  "parseXml example_item =
     Inr [(''tipoDocumento'', Some ''Lei''),
          (''facet-tipoDocumento'', Some ''Legislacao::Lei''),
          (''data'', Some ''2019-01-01''),
          (''urn'', Some ''urn:lex:br:federal:lei:2019''),
          (''url'', Some ''https://www.lexml.gov.br/urn/urn:lex:br:federal:lei:2019''),
          (''localidade'', Some ''Brasil''),
          (''facet-localidade'', Some ''Brasil''),
          (''autoridade'', Some ''Federal''),
          (''facet-autoridade'', Some ''Federal''),
          (''title'', Some ''Lei de 2019''),
          (''description'', None),
          (''type'', Some ''html''),
          (''identifier'', Some ''000001'')]"
  by (simp add: parseXml_def and_then_def getitem_def example_item_def XmlToJson_BASE_URL_def
      format_text_def)

theorem extracted_url_witness:
  "\<exists>out c'. parseToJson [example_item] [] = (Inr out, c') \<and> length out = 1
     \<and> map_of (out ! 0) ''url''
         = Some (Some ''https://www.lexml.gov.br/urn/urn:lex:br:federal:lei:2019'')"
proof -
  obtain out c' where p: "parseToJson [example_item] [] = (Inr out, c')" and l: "length out = 1"
    by (simp add: parseXml_example)
  have u: "getitem example_item ''urn'' = Inr (Some ''urn:lex:br:federal:lei:2019'')"
    by (simp add: getitem_def example_item_def)
  from extracted_url [OF p, of 0] u
  have "map_of (out ! 0) ''url''
          = Some (Some ''https://www.lexml.gov.br/urn/urn:lex:br:federal:lei:2019'')"
    by (simp add: format_text_def)
  with p l show ?thesis by blast
qed

section \<open>Runs of \<^verbatim>\<open>automatic_pagination\<close>\<close>

text \<open>
  The method returns at the first moment at which the run of calls has stopped, with the
  outcome of that moment, when the stack admits the calls this takes: one more than the
  pages fetched when the session is completed, as many as the calls made when a call
  failed. Otherwise it ends in \<^verbatim>\<open>RecursionError\<close>, after as many requests as the stack
  admitted calls. Either way it has a result.
\<close>

lemma automatic_pagination_no_depth:
  "automatic_pagination 0 w i s st P = Some (Inl RecursionError, s, i)"
  by (subst automatic_pagination.simps) simp



lemma automatic_pagination_exhausted:
  assumes "\<forall>k<d. \<not> stopped (paginate_steps w k i s st P)"
    and "\<not> isl (fst (paginate_steps w d i s st P))"
  shows "automatic_pagination d w i s st P =
           Some (Inl RecursionError, run_session (paginate_steps w d i s st P),
                 snd (snd (paginate_steps w d i s st P)))"
  using assms
proof (induction d arbitrary: i s st P)
  case 0
  then show ?case by (simp add: automatic_pagination_no_depth run_session_def)
next
  case (Suc d)
  from Suc.prems(1) have "\<not> stopped (paginate_steps w 0 i s st P)" by blast
  then have nc: "\<not> completed_query s" by (simp add: stopped_def run_session_def)
  obtain res s' ns where q: "query (w i) s st P = (res, s', ns)"
    by (cases "query (w i) s st P") auto
  have one: "\<not> isl (fst (paginate_steps w (Suc 0) i s st P))"
  proof (cases d)
    case 0
    with Suc.prems(2) show ?thesis by simp
  next
    case (Suc d')
    then have "Suc 0 < Suc d" by simp
    with Suc.prems(1) have "\<not> stopped (paginate_steps w (Suc 0) i s st P)" by blast
    then show ?thesis by (simp only: stopped_def) blast
  qed
  then obtain tree st' P' where q': "query (w i) s st P = (Inr (Some (tree, st', P')), s', ns)"
    using q by (cases res; cases "projr res") (auto split: option.splits)
  have shift: "\<And>k. paginate_steps w (Suc k) i s st P = paginate_steps w k (Suc i) s' st' P'"
    by (simp only: paginate_steps.simps q' prod.case sum.case option.case)
  have before: "\<forall>k<d. \<not> stopped (paginate_steps w k (Suc i) s' st' P')"
  proof (intro allI impI)
    fix k assume "k < d"
    then have "Suc k < Suc d" by simp
    with Suc.prems(1) have "\<not> stopped (paginate_steps w (Suc k) i s st P)" by blast
    then show "\<not> stopped (paginate_steps w k (Suc i) s' st' P')" unfolding shift .
  qed
  have last: "\<not> isl (fst (paginate_steps w d (Suc i) s' st' P'))"
    using Suc.prems(2) unfolding shift .
  from Suc.IH [OF before last]
  have inner: "automatic_pagination d w (Suc i) s' st' P' =
           Some (Inl RecursionError, run_session (paginate_steps w d (Suc i) s' st' P'),
                 snd (snd (paginate_steps w d (Suc i) s' st' P')))" .
  have "automatic_pagination (Suc d) w i s st P =
           Some (Inl RecursionError, run_session (paginate_steps w d (Suc i) s' st' P'),
                 snd (snd (paginate_steps w d (Suc i) s' st' P')))"
    using q' nc inner by (subst automatic_pagination.simps) simp
  then show ?case by (simp only: shift)
qed



section \<open>Runs of calls against a server\<close>

lemma query_valid_page:
  assumes "valid_page (get (request_url s st P)) tree n"
  shows "\<exists>ns. query get s st P =
           (Inr (Some (tree, overall_query_objects_tracker s + P + 1, P)),
            s\<lparr> containerOfXmlFiles := containerOfXmlFiles s @ [tree],
               overall_query_objects_tracker := overall_query_objects_tracker s + P,
               total_objects_of_query := (if falsy (total_objects_of_query s) then Some n
                                          else total_objects_of_query s),
               completed_query :=
                 (completed_query s \<or> n \<le> overall_query_objects_tracker s + P) \<rparr>,
            ns)"
proof -
  let ?ns = "if completed_query s then [AllConsumed (query_string s)] else []"
  have "query get s st P = accept_page s st P tree n ?ns"
    using query_valid [of get s st P tree n, OF assms] .
  then show ?thesis
    using accept_page_result [of s st P tree n ?ns] accept_page_session [of s st P tree n ?ns]
    by (metis prod.collapse)
qed

lemma paginate_steps_zero:
  assumes "\<forall>k url. \<exists>tree n. valid_page (w k url) tree n \<and> overall_query_objects_tracker s < n"
    and "\<not> completed_query s"
  shows "fst (paginate_steps w k i s st 0) = Inr ()
         \<and> \<not> completed_query (run_session (paginate_steps w k i s st 0))
         \<and> overall_query_objects_tracker (run_session (paginate_steps w k i s st 0))
             = overall_query_objects_tracker s
         \<and> length (containerOfXmlFiles (run_session (paginate_steps w k i s st 0)))
             = length (containerOfXmlFiles s) + k
         \<and> snd (snd (paginate_steps w k i s st 0)) = i + k"
  using assms
proof (induction k arbitrary: i s st)
  case 0
  then show ?case by (simp add: run_session_def)
next
  case (Suc k)
  from Suc.prems(1) obtain tree n
    where v: "valid_page (w i (request_url s st 0)) tree n"
      and n: "overall_query_objects_tracker s < n"
    by blast
  define s' where "s' = s\<lparr> containerOfXmlFiles := containerOfXmlFiles s @ [tree],
               overall_query_objects_tracker := overall_query_objects_tracker s + 0,
               total_objects_of_query := (if falsy (total_objects_of_query s) then Some n
                                          else total_objects_of_query s),
               completed_query :=
                 (completed_query s \<or> n \<le> overall_query_objects_tracker s + 0) \<rparr>"
  obtain ns where q: "query (w i) s st 0
              = (Inr (Some (tree, overall_query_objects_tracker s + 0 + 1, 0)), s', ns)"
    using query_valid_page [of "w i" s st 0 tree n, OF v] unfolding s'_def by blast
  have shift: "paginate_steps w (Suc k) i s st 0
                 = paginate_steps w k (Suc i) s' (overall_query_objects_tracker s + 0 + 1) 0"
    by (simp only: paginate_steps.simps q prod.case sum.case option.case)
  have t: "overall_query_objects_tracker s' = overall_query_objects_tracker s"
    and c: "\<not> completed_query s'"
    and l: "length (containerOfXmlFiles s') = length (containerOfXmlFiles s) + 1"
    using n Suc.prems(2) by (simp_all add: s'_def)
  have "\<forall>k url. \<exists>tree n. valid_page (w k url) tree n \<and> overall_query_objects_tracker s' < n"
    using Suc.prems(1) by (simp add: t)
  from Suc.IH [OF this c, of "Suc i" "overall_query_objects_tracker s + 0 + 1"]
  show ?case unfolding shift by (simp add: t l)
qed

lemma paginate_steps_stable:
  assumes "\<forall>k url. \<exists>tree. valid_page (w k url) tree T" and "0 \<le> P"
  shows "fst (paginate_steps w k i s st P) = Inr ()
         \<and> overall_query_objects_tracker (run_session (paginate_steps w k i s st P))
             = overall_query_objects_tracker s + int k * P
         \<and> (completed_query (run_session (paginate_steps w k i s st P))
             \<longleftrightarrow> completed_query s \<or> (0 < k \<and> T \<le> overall_query_objects_tracker s + int k * P))"
  using assms
proof (induction k arbitrary: i s st)
  case 0
  then show ?case by (simp add: run_session_def)
next
  case (Suc k)
  from Suc.prems(1) obtain tree
    where v: "valid_page (w i (request_url s st P)) tree T"
    by blast
  define s' where "s' = s\<lparr> containerOfXmlFiles := containerOfXmlFiles s @ [tree],
               overall_query_objects_tracker := overall_query_objects_tracker s + P,
               total_objects_of_query := (if falsy (total_objects_of_query s) then Some T
                                          else total_objects_of_query s),
               completed_query :=
                 (completed_query s \<or> T \<le> overall_query_objects_tracker s + P) \<rparr>"
  obtain ns where q: "query (w i) s st P
              = (Inr (Some (tree, overall_query_objects_tracker s + P + 1, P)), s', ns)"
    using query_valid_page [of "w i" s st P tree T, OF v] unfolding s'_def by blast
  have shift: "paginate_steps w (Suc k) i s st P
                 = paginate_steps w k (Suc i) s' (overall_query_objects_tracker s + P + 1) P"
    by (simp only: paginate_steps.simps q prod.case sum.case option.case)
  have t': "overall_query_objects_tracker s' = overall_query_objects_tracker s + P"
    and c': "completed_query s' \<longleftrightarrow> completed_query s \<or> T \<le> overall_query_objects_tracker s + P"
    by (simp_all add: s'_def)
  have mono: "overall_query_objects_tracker s + P \<le> overall_query_objects_tracker s + P + int k * P"
    using Suc.prems(2) by simp
  have eq: "overall_query_objects_tracker s + int (Suc k) * P
            = overall_query_objects_tracker s + P + int k * P"
    by (simp add: algebra_simps)
  show ?case
    using Suc.IH [OF Suc.prems, of "Suc i" s' "overall_query_objects_tracker s + P + 1"] mono
    unfolding shift t' c' eq
    by (cases "k = 0") auto
qed

section \<open>The number of calls\<close>

lemma ceil_div_le:
  assumes "1 \<le> (P::int)"
  shows "\<lceil>real_of_int T / real_of_int P\<rceil> \<le> int k \<longleftrightarrow> T \<le> int k * P"
proof -
  have P: "0 < real_of_int P" using assms by simp
  have "\<lceil>real_of_int T / real_of_int P\<rceil> \<le> int k
        \<longleftrightarrow> real_of_int T / real_of_int P \<le> real_of_int (int k)"
    by (rule ceiling_le_iff)
  also have "\<dots> \<longleftrightarrow> real_of_int T \<le> real_of_int (int k) * real_of_int P"
    using P by (rule pos_divide_le_eq)
  also have "\<dots> \<longleftrightarrow> real_of_int T \<le> real_of_int (int k * P)" by simp
  also have "\<dots> \<longleftrightarrow> T \<le> int k * P" by (rule of_int_le_iff)
  finally show ?thesis .
qed

text \<open>
  Claim C1, amended. Against a server that reports the total \<open>T\<close> in every response, calls
  of \<^verbatim>\<open>query\<close> on a new session with a fixed page size \<open>P \<ge> 1\<close>, each starting where the
  one before ended, all return a page, and the session is completed after exactly
  \<open>max 1 \<lceil>T / P\<rceil>\<close> calls: after that many and after no fewer. The tracker is then at
  least \<open>T\<close>. For \<open>T \<ge> 1\<close> the number of calls is \<open>\<lceil>T / P\<rceil>\<close>; for \<open>T = 0\<close> it is one,
  the call that learns the total.
\<close>

theorem calls_until_completed:
  assumes "\<forall>k url. \<exists>tree. valid_page (w k url) tree T"
    and "1 \<le> P"
    and "n = max 1 (nat \<lceil>real_of_int T / real_of_int P\<rceil>)"
  shows "fst (paginate_steps w n i (init q) startRecord P) = Inr ()
         \<and> completed_query (run_session (paginate_steps w n i (init q) startRecord P))
         \<and> (\<forall>k<n. \<not> completed_query (run_session (paginate_steps w k i (init q) startRecord P)))
         \<and> T \<le> overall_query_objects_tracker
                  (run_session (paginate_steps w n i (init q) startRecord P))
         \<and> (1 \<le> T \<longrightarrow> n = nat \<lceil>real_of_int T / real_of_int P\<rceil>)"
proof -
  have P0: "0 \<le> P" using assms(2) by simp
  have steps: "\<And>k. fst (paginate_steps w k i (init q) startRecord P) = Inr ()
         \<and> overall_query_objects_tracker (run_session (paginate_steps w k i (init q) startRecord P))
             = int k * P
         \<and> (completed_query (run_session (paginate_steps w k i (init q) startRecord P))
             \<longleftrightarrow> 0 < k \<and> T \<le> int k * P)"
    using paginate_steps_stable [OF assms(1) P0, of _ i "init q" startRecord]
    by (simp add: init_def)
  have ceil: "\<And>k. \<lceil>real_of_int T / real_of_int P\<rceil> \<le> int k \<longleftrightarrow> T \<le> int k * P"
    using ceil_div_le [OF assms(2)] .
  have n1: "0 < n" using assms(3) by simp
  have "\<lceil>real_of_int T / real_of_int P\<rceil> \<le> int n" using assms(3) by simp
  then have Tn: "T \<le> int n * P" using ceil by simp
  have below: "\<not> (0 < k \<and> T \<le> int k * P)" if "k < n" for k
  proof
    assume a: "0 < k \<and> T \<le> int k * P"
    then have "\<lceil>real_of_int T / real_of_int P\<rceil> \<le> int k" using ceil by simp
    then have "nat \<lceil>real_of_int T / real_of_int P\<rceil> \<le> k" by (simp only: nat_le_iff)
    with a have "n \<le> k" using assms(3) by simp
    with that show False by simp
  qed
  have pos: "n = nat \<lceil>real_of_int T / real_of_int P\<rceil>" if "1 \<le> T"
  proof -
    have "0 < real_of_int T / real_of_int P" using that assms(2) by simp
    then have "0 < \<lceil>real_of_int T / real_of_int P\<rceil>" by simp
    then have "1 \<le> nat \<lceil>real_of_int T / real_of_int P\<rceil>" by linarith
    then show ?thesis unfolding assms(3) by (rule max_absorb2)
  qed
  show ?thesis using steps n1 Tn below pos by simp
qed

lemma stable_world_valid:
  assumes "py_int t = Inr n"
  shows "\<forall>k url. \<exists>tree. valid_page (stable_world t k url) tree n"
  using valid_page_results [OF assms] by (auto simp: stable_world_def)

lemma ceiling_25_10: "nat \<lceil>real_of_int 25 / real_of_int 10\<rceil> = 3"
proof -
  have "\<lceil>real_of_int 25 / real_of_int 10\<rceil> = 3" by (simp add: ceiling_eq_iff)
  then show ?thesis by simp
qed

theorem calls_until_completed_witness:
  "completed_query
     (run_session (paginate_steps (stable_world ''25'') 3 0 (init ''date=2019'') 1 10))
   \<and> \<not> completed_query
       (run_session (paginate_steps (stable_world ''25'') 2 0 (init ''date=2019'') 1 10))
   \<and> 25 \<le> overall_query_objects_tracker
       (run_session (paginate_steps (stable_world ''25'') 3 0 (init ''date=2019'') 1 10))"
proof -
  have v: "\<forall>k url. \<exists>tree. valid_page (stable_world ''25'' k url) tree 25"
    by (rule stable_world_valid) (rule py_int_literals)
  have p: "(1::int) \<le> 10" by simp
  have n: "(3::nat) = max 1 (nat \<lceil>real_of_int 25 / real_of_int 10\<rceil>)"
    by (simp only: ceiling_25_10)
  from calls_until_completed [OF v p n, of 0 "''date=2019''" 1]
  show ?thesis by simp
qed

text \<open>
  Claim C1, as stated, does not hold for a total of zero: \<open>\<lceil>0 / 10\<rceil> = 0\<close>, and after no
  call at all the session is not completed; it is after the first call.
\<close>

theorem zero_calls_do_not_complete:
  "valid_page (stable_world ''0'' 0 (request_url (init ''date=2019'') 1 10)) (results_page ''0'') 0
   \<and> nat \<lceil>real_of_int 0 / real_of_int 10\<rceil> = 0
   \<and> \<not> completed_query
       (run_session (paginate_steps (stable_world ''0'')
          (nat \<lceil>real_of_int 0 / real_of_int 10\<rceil>) 0 (init ''date=2019'') 1 10))
   \<and> completed_query
       (run_session (paginate_steps (stable_world ''0'') 1 0 (init ''date=2019'') 1 10))"
proof -
  have v: "valid_page (stable_world ''0'' 0 (request_url (init ''date=2019'') 1 10))
             (results_page ''0'') 0"
    unfolding stable_world_def by (rule valid_page_0)
  have "completed_query
       (run_session (paginate_steps (stable_world ''0'') (Suc 0) 0 (init ''date=2019'') 1 10))"
    using query_valid [of "stable_world ''0'' 0" "init ''date=2019''" 1 10, OF v]
    by (simp add: run_session_def accept_page_def addToContainerOfXmlFiles_def Let_def init_def)
  with v show ?thesis by (simp add: run_session_def init_def)
qed

section \<open>When \<^verbatim>\<open>automatic_pagination\<close> returns\<close>

lemma py_int_more_literals:
  "py_int ''100'' = Inr 100" "py_int ''25000'' = Inr 25000"
  by (simp_all add: py_int_def strip_def is_space_def is_digit_def digits_value_def Let_def)




lemma stable_world_25_positive:
  "\<forall>k url. \<exists>tree n. valid_page (stable_world ''25'' k url) tree n
     \<and> overall_query_objects_tracker (init ''date=2019'') < n"
proof (intro allI)
  fix k :: nat and url :: string
  have "valid_page (stable_world ''25'' k url) (results_page ''25'') 25"
    unfolding stable_world_def by (rule valid_page_25)
  moreover have "overall_query_objects_tracker (init ''date=2019'') < 25"
    by (simp add: init_def)
  ultimately show "\<exists>tree n. valid_page (stable_world ''25'' k url) tree n
     \<and> overall_query_objects_tracker (init ''date=2019'') < n"
    by blast
qed





section \<open>A page size of zero\<close>

text \<open>
  Claim C10, as stated, does not hold. A session that one page of ten out of a hundred
  has left not completed, with the tracker at ten, is completed by a call with a page
  size of zero when the response reports five results. And \<^verbatim>\<open>automatic_pagination\<close>
  with a page size of zero does end: in \<^verbatim>\<open>RecursionError\<close>.
\<close>

theorem zero_page_size_can_complete:
  "\<not> completed_query
     (fst (snd (query (server 200 (Xml (results_page ''100''))) (init ''date=2019'') 1 10)))
   \<and> completed_query
       (fst (snd (query (server 200 (Xml (results_page ''5'')))
          (fst (snd (query (server 200 (Xml (results_page ''100''))) (init ''date=2019'') 1 10)))
          11 0)))
   \<and> map_option fst (automatic_pagination 1000 (stable_world ''25'') 0 (init ''date=2019'') 1 0)
       = Some (Inl RecursionError)"
proof -
  let ?s1 = "fst (snd (query (server 200 (Xml (results_page ''100''))) (init ''date=2019'') 1 10))"
  have v100: "valid_page (server 200 (Xml (results_page ''100''))
                (request_url (init ''date=2019'') 1 10)) (results_page ''100'') 100"
    by (rule valid_page_results) (rule py_int_more_literals)
  have s1: "?s1 = \<lparr> containerOfXmlFiles = [results_page ''100''],
       query_string = ''date=2019'', overall_query_objects_tracker = 10,
       total_objects_of_query = Some 100, completed_query = False \<rparr>"
    using query_valid [of "server 200 (Xml (results_page ''100''))" "init ''date=2019''" 1 10,
        OF v100]
    by (simp add: accept_page_session init_def falsy_def)
  have v5: "valid_page (server 200 (Xml (results_page ''5'')) (request_url ?s1 11 0))
              (results_page ''5'') 5"
    by (rule valid_page_results) (rule py_int_literals)
  have 2: "completed_query (fst (snd (query (server 200 (Xml (results_page ''5''))) ?s1 11 0)))"
    using query_valid [of "server 200 (Xml (results_page ''5''))" ?s1 11 0, OF v5]
    by (simp add: accept_page_session s1)
  have z: "\<And>k. fst (paginate_steps (stable_world ''25'') k 0 (init ''date=2019'') 1 0) = Inr ()
             \<and> \<not> completed_query
                 (run_session (paginate_steps (stable_world ''25'') k 0 (init ''date=2019'') 1 0))"
    using paginate_steps_zero [OF stable_world_25_positive, of _ 0 1] by (simp add: init_def)
  have a: "\<forall>k<1000. \<not> stopped (paginate_steps (stable_world ''25'') k 0 (init ''date=2019'') 1 0)"
    using z by (simp add: stopped_def)
  have b: "\<not> isl (fst (paginate_steps (stable_world ''25'') 1000 0 (init ''date=2019'') 1 0))"
    using z by simp
  have 3: "map_option fst (automatic_pagination 1000 (stable_world ''25'') 0 (init ''date=2019'') 1 0)
       = Some (Inl RecursionError)"
    using automatic_pagination_exhausted [OF a b] by simp
  from 2 3 show ?thesis by (simp add: s1)
qed

text \<open>
  Claim C10, amended. \<^verbatim>\<open>query\<close> does not check its arguments. On a session that is not
  completed and whose tracker is below every total the server reports (every new
  session against a server that reports positive totals), a call with a page size of
  zero returns a page and appends it, leaves the tracker where it was and does not set
  the completion flag; so does every further call, and \<^verbatim>\<open>automatic_pagination\<close> with a
  page size of zero never returns normally: whatever the depth the stack admits, it
  makes that many requests and ends in \<^verbatim>\<open>RecursionError\<close>, the session not completed.
\<close>

theorem zero_page_size_makes_no_progress:
  assumes "\<forall>k url. \<exists>tree n. valid_page (w k url) tree n \<and> overall_query_objects_tracker s < n"
    and "\<not> completed_query s"
  shows "(\<exists>tree s' ns. query (w i) s startRecord 0
            = (Inr (Some (tree, overall_query_objects_tracker s + 1, 0)), s', ns)
          \<and> containerOfXmlFiles s' = containerOfXmlFiles s @ [tree]
          \<and> overall_query_objects_tracker s' = overall_query_objects_tracker s
          \<and> \<not> completed_query s')
       \<and> (\<forall>k. fst (paginate_steps w k i s startRecord 0) = Inr ()
             \<and> \<not> completed_query (run_session (paginate_steps w k i s startRecord 0))
             \<and> overall_query_objects_tracker (run_session (paginate_steps w k i s startRecord 0))
                 = overall_query_objects_tracker s
             \<and> length (containerOfXmlFiles (run_session (paginate_steps w k i s startRecord 0)))
                 = length (containerOfXmlFiles s) + k)
       \<and> automatic_pagination depth w i s startRecord 0
           = Some (Inl RecursionError, run_session (paginate_steps w depth i s startRecord 0),
                   i + depth)"
proof -
  from assms(1) obtain tree n
    where v: "valid_page (w i (request_url s startRecord 0)) tree n"
      and n: "overall_query_objects_tracker s < n"
    by blast
  have one: "\<exists>tree s' ns. query (w i) s startRecord 0
            = (Inr (Some (tree, overall_query_objects_tracker s + 1, 0)), s', ns)
          \<and> containerOfXmlFiles s' = containerOfXmlFiles s @ [tree]
          \<and> overall_query_objects_tracker s' = overall_query_objects_tracker s
          \<and> \<not> completed_query s'"
    using query_valid_page [of "w i" s startRecord 0 tree n, OF v] n assms(2) by auto
  have steps: "\<And>k. fst (paginate_steps w k i s startRecord 0) = Inr ()
             \<and> \<not> completed_query (run_session (paginate_steps w k i s startRecord 0))
             \<and> overall_query_objects_tracker (run_session (paginate_steps w k i s startRecord 0))
                 = overall_query_objects_tracker s
             \<and> length (containerOfXmlFiles (run_session (paginate_steps w k i s startRecord 0)))
                 = length (containerOfXmlFiles s) + k
             \<and> snd (snd (paginate_steps w k i s startRecord 0)) = i + k"
    using paginate_steps_zero [OF assms] .
  then have a: "\<forall>k<depth. \<not> stopped (paginate_steps w k i s startRecord 0)"
    and b: "\<not> isl (fst (paginate_steps w depth i s startRecord 0))"
    by (simp_all add: stopped_def)
  have "automatic_pagination depth w i s startRecord 0
           = Some (Inl RecursionError, run_session (paginate_steps w depth i s startRecord 0),
                   i + depth)"
    using automatic_pagination_exhausted [OF a b] steps [of depth] by simp
  with one steps show ?thesis by blast
qed

theorem zero_page_size_makes_no_progress_witness:
  "automatic_pagination 1000 (stable_world ''25'') 0 (init ''date=2019'') 1 0
     = Some (Inl RecursionError,
             run_session (paginate_steps (stable_world ''25'') 1000 0 (init ''date=2019'') 1 0),
             1000)
   \<and> \<not> completed_query
       (run_session (paginate_steps (stable_world ''25'') 1000 0 (init ''date=2019'') 1 0))
   \<and> overall_query_objects_tracker
       (run_session (paginate_steps (stable_world ''25'') 1000 0 (init ''date=2019'') 1 0)) = 0
   \<and> length (containerOfXmlFiles
       (run_session (paginate_steps (stable_world ''25'') 1000 0 (init ''date=2019'') 1 0)))
       = 1000"
proof -
  have d: "\<not> completed_query (init ''date=2019'')" by (simp add: init_def)
  from zero_page_size_makes_no_progress [OF stable_world_25_positive d, of 0 1 1000]
  show ?thesis by (simp add: init_def)
qed

end
